theory Spec2Isabelle
  imports Main
begin

section \<open>Options and the host\<close>

text \<open>
  \<^verbatim>\<open>label: string | HTMLElement\<close>: a label is a string, or an element of which the widget
  only ever reads \<^verbatim>\<open>textContent\<close> (which may be \<^verbatim>\<open>null\<close>).
\<close>

datatype option_label = Text string | Element "string option"

text \<open>
  \<^verbatim>\<open>ZAutocompleteOption<OptionValue>\<close>. An absent \<^verbatim>\<open>inputValue\<close> or \<^verbatim>\<open>value\<close> is \<open>None\<close>;
  an absent \<^verbatim>\<open>disabled\<close> is falsy, hence \<open>False\<close>.
\<close>

record 'v ZAutocompleteOption =
  label :: option_label
  inputValue :: "string option"
  optionValue :: "'v option"
  disabled :: bool

text \<open>
  What the host supplies: the \<^verbatim>\<open>dataToOption\<close> override (its argument and its result may
  be \<^verbatim>\<open>undefined\<close>) and its listener of the \<^verbatim>\<open>'autocomplete'\<close> event, reduced to the
  decision to call \<^verbatim>\<open>preventDefault()\<close> on an event with a given \<^verbatim>\<open>detail\<close>.
\<close>

record 'v host =
  dataToOption :: "'v option \<Rightarrow> 'v ZAutocompleteOption option"
  prevents :: "'v option \<Rightarrow> bool"

section \<open>The widget's state\<close>

text \<open>
  The fields of the class \<^verbatim>\<open>ZAutocomplete\<close>, and the parts of its environment that its
  methods read and write:
  \<^item> \<open>controllers\<close> is the store of every \<^verbatim>\<open>AbortController\<close> created so far, each with
    the \<^verbatim>\<open>reason\<close> of its signal once aborted (\<open>None\<close>: not aborted);
    \<open>abortController\<close> is the field \<^verbatim>\<open>_abortController\<close>, a reference into that store;
  \<^item> \<open>inputEl\<close> is \<^verbatim>\<open>_inputEl.value\<close>, \<open>ariaExpanded\<close> the attribute set by the
    \<^verbatim>\<open>open\<close> setter;
  \<^item> \<open>isOpen\<close>, \<open>committed\<close>, \<open>optionList\<close> are \<^verbatim>\<open>_open\<close>, \<^verbatim>\<open>_value\<close>, \<^verbatim>\<open>_options\<close>;
  \<^item> \<open>timer\<close> is the variable \<^verbatim>\<open>timer\<close> captured by the closure of \<^verbatim>\<open>debounce\<close>,
    \<open>timeouts\<close> the timeouts of the event loop that are armed and have not fired,
    \<open>nextTimeout\<close> the identifier \<^verbatim>\<open>setTimeout\<close> returns next;
  \<^item> \<open>fetchCalls\<close> logs every call of \<^verbatim>\<open>fetchData\<close>: the query and the signal passed;
  \<^item> \<open>dispatched\<close> logs the \<^verbatim>\<open>detail\<close> of every \<^verbatim>\<open>'autocomplete'\<close> event dispatched;
  \<^item> \<open>microtasks\<close> holds the callbacks given to \<^verbatim>\<open>updateComplete.then\<close> by the
    \<^verbatim>\<open>value\<close> setter that have not run yet, each with the \<^verbatim>\<open>defaultPrevented\<close> of its
    event and the value assigned.
  Scrolling, focus and the visibility of the clear control are not modelled.
\<close>

record 'v ZAutocomplete =
  abortController :: "nat option"
  controllers :: "string option list"
  inputEl :: string
  ariaExpanded :: bool
  isOpen :: bool
  committed :: "'v option"
  optionList :: "'v ZAutocompleteOption list"
  activeOptionIndex :: int
  timer :: "nat option"
  timeouts :: "nat list"
  nextTimeout :: nat
  fetchCalls :: "(string \<times> nat option) list"
  dispatched :: "'v option list"
  microtasks :: "(bool \<times> 'v option) list"

text \<open>The field initialisers of the class, around a bound field holding \<open>txt\<close>.\<close>

definition initial :: "string \<Rightarrow> 'v ZAutocomplete" where
  "initial txt =
     \<lparr>abortController = None, controllers = [], inputEl = txt, ariaExpanded = False,
      isOpen = False, committed = None, optionList = [], activeOptionIndex = - 1,
      timer = None, timeouts = [], nextTimeout = 0, fetchCalls = [], dispatched = [],
      microtasks = []\<rparr>"

section \<open>Cancellation tokens and the debounce closure\<close>

text \<open>
  \<^verbatim>\<open>this._abortController?.abort(reason)\<close>: nothing without a controller; a signal that
  is aborted already keeps its first reason.
\<close>

definition abort :: "string \<Rightarrow> 'v ZAutocomplete \<Rightarrow> 'v ZAutocomplete" where
  "abort reason s =
     (case abortController s of
        None \<Rightarrow> s
      | Some c \<Rightarrow>
          (case controllers s ! c of
             None \<Rightarrow> s\<lparr>controllers := (controllers s)[c := Some reason]\<rparr>
           | Some r \<Rightarrow> s))"

text \<open>\<^verbatim>\<open>this._abortController = new AbortController()\<close>.\<close>

definition newAbortController :: "'v ZAutocomplete \<Rightarrow> 'v ZAutocomplete" where
  "newAbortController s =
     s\<lparr>abortController := Some (length (controllers s)),
       controllers := controllers s @ [None]\<rparr>"

text \<open>Whether the signal passed to a call of \<^verbatim>\<open>fetchData\<close> is aborted.\<close>

definition aborted :: "'v ZAutocomplete \<Rightarrow> nat option \<Rightarrow> bool" where
  "aborted s signal =
     (case signal of None \<Rightarrow> False | Some c \<Rightarrow> c < length (controllers s) \<and> controllers s ! c \<noteq> None)"

text \<open>
  The function returned by \<^verbatim>\<open>debounce(cb, delay)\<close>:
  \<^verbatim>\<open>clearTimeout(timer); timer = setTimeout(() => { cb(...args); }, delay);\<close>
\<close>

definition clearTimeout :: "nat option \<Rightarrow> nat list \<Rightarrow> nat list" where
  "clearTimeout t ts = (case t of None \<Rightarrow> ts | Some i \<Rightarrow> removeAll i ts)"

definition debounce :: "'v ZAutocomplete \<Rightarrow> 'v ZAutocomplete" where
  "debounce s =
     s\<lparr>timeouts := clearTimeout (timer s) (timeouts s) @ [nextTimeout s],
       timer := Some (nextTimeout s),
       nextTimeout := Suc (nextTimeout s)\<rparr>"

section \<open>The setters\<close>

text \<open>
  \<^verbatim>\<open>set open(val)\<close>: \<^verbatim>\<open>this._open = val && !!this.options.length\<close>; when that is false
  the active index is reset to \<^verbatim>\<open>-1\<close>.
\<close>

definition open_set :: "bool \<Rightarrow> 'v ZAutocomplete \<Rightarrow> 'v ZAutocomplete" where
  "open_set val s =
     (let s1 = s\<lparr>isOpen := val \<and> optionList s \<noteq> []\<rparr>;
          s2 = (if \<not> isOpen s1 then s1\<lparr>activeOptionIndex := - 1\<rparr> else s1)
      in s2\<lparr>ariaExpanded := isOpen s2\<rparr>)"

text \<open>
  \<^verbatim>\<open>set options(val)\<close>: \<^verbatim>\<open>this._options = val.filter(Boolean); this.open = !!val.length\<close>.
  An entry of the list is an option object (truthy) or \<^verbatim>\<open>undefined\<close>/\<^verbatim>\<open>null\<close> (falsy).
\<close>

definition filter_Boolean :: "'a option list \<Rightarrow> 'a list" where
  "filter_Boolean val = map the (filter (\<lambda>x. x \<noteq> None) val)"

definition options_set ::
  "'v ZAutocompleteOption option list \<Rightarrow> 'v ZAutocomplete \<Rightarrow> 'v ZAutocomplete" where
  "options_set val s = open_set (val \<noteq> []) (s\<lparr>optionList := filter_Boolean val\<rparr>)"

text \<open>
  \<^verbatim>\<open>set value(val)\<close> dispatches the cancelable event at once and leaves the rest to a
  callback of \<^verbatim>\<open>updateComplete.then\<close>, which runs later, as a microtask.
\<close>

definition value_set :: "'v host \<Rightarrow> 'v option \<Rightarrow> 'v ZAutocomplete \<Rightarrow> 'v ZAutocomplete" where
  "value_set h val s =
     s\<lparr>dispatched := dispatched s @ [val],
       microtasks := microtasks s @ [(prevents h val, val)]\<rparr>"

text \<open>
  The text of the field for an option: a truthy \<^verbatim>\<open>inputValue\<close>, else a string label, else
  the \<^verbatim>\<open>textContent ?? ''\<close> of an element label; the empty string without an option.
\<close>

definition label_text :: "option_label \<Rightarrow> string" where
  "label_text l =
     (case l of Text t \<Rightarrow> t | Element c \<Rightarrow> (case c of None \<Rightarrow> [] | Some t \<Rightarrow> t))"

definition display_text :: "'v ZAutocompleteOption option \<Rightarrow> string" where
  "display_text option =
     (case option of
        None \<Rightarrow> []
      | Some opt \<Rightarrow>
          (case inputValue opt of
             None \<Rightarrow> label_text (label opt)
           | Some iv \<Rightarrow> if iv \<noteq> [] then iv else label_text (label opt)))"

text \<open>The callback of \<^verbatim>\<open>updateComplete.then\<close> in the \<^verbatim>\<open>value\<close> setter.\<close>

definition value_then ::
  "'v host \<Rightarrow> bool \<times> 'v option \<Rightarrow> 'v ZAutocomplete \<Rightarrow> 'v ZAutocomplete" where
  "value_then h m s =
     options_set []
       (if \<not> fst m
        then s\<lparr>committed := snd m, inputEl := display_text (dataToOption h (snd m))\<rparr>
        else s\<lparr>committed := None, inputEl := []\<rparr>)"

text \<open>
  The microtask checkpoint at the end of a task: the pending callbacks run in the order
  they were queued. None of them queues another one.
\<close>

definition run_microtasks :: "'v host \<Rightarrow> 'v ZAutocomplete \<Rightarrow> 'v ZAutocomplete" where
  "run_microtasks h s =
     foldl (\<lambda>s' m. value_then h m s') (s\<lparr>microtasks := []\<rparr>) (microtasks s)"

section \<open>The handlers\<close>

text \<open>\<^verbatim>\<open>_onClear\<close>: abort with a reason, then \<^verbatim>\<open>this.value = undefined\<close>.\<close>

definition onClear :: "'v host \<Rightarrow> 'v ZAutocomplete \<Rightarrow> 'v ZAutocomplete" where
  "onClear h s =
     value_set h None (abort ''ZAutocomplete [data-z-autocomplete-input] has been cleared.'' s)"

text \<open>
  \<^verbatim>\<open>_onInputChange\<close> is an \<^verbatim>\<open>async\<close> method. Up to its \<^verbatim>\<open>await\<close> it calls \<^verbatim>\<open>fetchData\<close>
  with the text of the field and the signal of the current controller, both read at the
  time of the call. When the promise resolves with \<open>data\<close>, it assigns
  \<^verbatim>\<open>data.map(this.dataToOption.bind(this))\<close> to \<^verbatim>\<open>options\<close>: there is no other statement
  after the \<^verbatim>\<open>await\<close>.
\<close>

definition onInputChange :: "'v ZAutocomplete \<Rightarrow> 'v ZAutocomplete" where
  "onInputChange s = s\<lparr>fetchCalls := fetchCalls s @ [(inputEl s, abortController s)]\<rparr>"

definition onInputChange_resolved ::
  "'v host \<Rightarrow> 'v list \<Rightarrow> 'v ZAutocomplete \<Rightarrow> 'v ZAutocomplete" where
  "onInputChange_resolved h data s =
     options_set (map (\<lambda>d. dataToOption h (Some d)) data) s"

text \<open>
  \<^verbatim>\<open>_onInput\<close>, with \<^verbatim>\<open>_onInputChange\<close> replaced by its debounced version, as
  \<^verbatim>\<open>connectedCallback\<close> does.
\<close>

definition onInput :: "'v host \<Rightarrow> 'v ZAutocomplete \<Rightarrow> 'v ZAutocomplete" where
  "onInput h s =
     (let s1 = options_set [] s in
      if inputEl s1 = [] then onClear h s1
      else debounce
             (newAbortController
                (abort ''ZAutocomplete : A new search has been performed'' s1)))"

text \<open>A timeout of the event loop fires: the callback armed by \<^verbatim>\<open>debounce\<close> runs.\<close>

definition timeout_fires :: "nat \<Rightarrow> 'v ZAutocomplete \<Rightarrow> 'v ZAutocomplete" where
  "timeout_fires t s =
     (if t \<in> set (timeouts s) then onInputChange (s\<lparr>timeouts := removeAll t (timeouts s)\<rparr>)
      else s)"

text \<open>
  \<^verbatim>\<open>disconnectedCallback\<close> aborts the current controller and removes listeners; it has
  no statement about the timer of \<^verbatim>\<open>debounce\<close>.
\<close>

definition disconnectedCallback :: "'v ZAutocomplete \<Rightarrow> 'v ZAutocomplete" where
  "disconnectedCallback s = abort ''ZAutocomplete is beeing destroyed'' s"

text \<open>\<^verbatim>\<open>_handleClickOutside\<close>: \<^verbatim>\<open>this.open = this.contains(event.target)\<close>.\<close>

definition handleClickOutside :: "bool \<Rightarrow> 'v ZAutocomplete \<Rightarrow> 'v ZAutocomplete" where
  "handleClickOutside inside s = open_set inside s"

text \<open>
  \<^verbatim>\<open>_selectOption(option)\<close>; \<^verbatim>\<open>this.options[i]\<close> is \<^verbatim>\<open>undefined\<close> outside of the list.
\<close>

definition option_at :: "'a list \<Rightarrow> int \<Rightarrow> 'a option" where
  "option_at xs i = (if 0 \<le> i \<and> i < int (length xs) then Some (xs ! nat i) else None)"

definition selectOption ::
  "'v host \<Rightarrow> 'v ZAutocompleteOption option \<Rightarrow> 'v ZAutocomplete \<Rightarrow> 'v ZAutocomplete" where
  "selectOption h option s =
     (case option of
        None \<Rightarrow> s
      | Some opt \<Rightarrow> if disabled opt then s else value_set h (optionValue opt) s)"

text \<open>
  \<^verbatim>\<open>_navigateToOption(newIndex)\<close>. The three guards, then the retargeting past a disabled
  option (the active index itself is not changed before the recursive call), then the
  assignment.
\<close>

function navigateToOption :: "int \<Rightarrow> 'v ZAutocomplete \<Rightarrow> 'v ZAutocomplete" where
  "navigateToOption newIndex s =
     (if newIndex < 0 then s
      else if newIndex = activeOptionIndex s then s
      else if newIndex > int (length (optionList s)) - 1 then s
      else if disabled (optionList s ! nat newIndex) then
        (let offset = newIndex - activeOptionIndex s;
             offset' = (if offset > 0 then offset + 1 else offset - 1)
         in navigateToOption (activeOptionIndex s + offset') s)
      else s\<lparr>activeOptionIndex := newIndex\<rparr>)"
  by pat_completeness auto
termination
  by (relation "measure (\<lambda>(n, s).
        if n > activeOptionIndex s then nat (int (length (optionList s)) - n) else nat (n + 1))")
     auto

declare navigateToOption.simps [simp del]

text \<open>\<^verbatim>\<open>_onKeydown\<close>, on the \<^verbatim>\<open>key\<close> of the event.\<close>

definition onKeydown :: "'v host \<Rightarrow> string \<Rightarrow> 'v ZAutocomplete \<Rightarrow> 'v ZAutocomplete" where
  "onKeydown h key s =
     (if optionList s = [] \<or> \<not> isOpen s then s
      else if key = ''ArrowDown'' then navigateToOption (activeOptionIndex s + 1) s
      else if key = ''ArrowUp'' then navigateToOption (activeOptionIndex s - 1) s
      else if key = ''Enter'' then
        selectOption h (option_at (optionList s) (activeOptionIndex s)) s
      else if key = ''Escape'' then open_set False s
      else s)"

section \<open>The event loop\<close>

text \<open>
  What can happen to a connected widget, one task at a time: an \<^verbatim>\<open>input\<close> event that
  leaves a text in the field, a timeout firing, the promise of the \<open>k\<close>-th call of
  \<^verbatim>\<open>fetchData\<close> resolving with data, a \<^verbatim>\<open>keydown\<close>, a click in the document (inside the
  widget or not), a click on the clear control, an assignment of the host to \<^verbatim>\<open>value\<close>,
  the disconnection. The microtasks run at the end of each task.
\<close>

datatype 'v event =
    Input string
  | Timeout nat
  | Resolved nat "'v list"
  | Keydown string
  | Click bool
  | ClearClick
  | Assign "'v option"
  | Disconnected

fun handle :: "'v host \<Rightarrow> 'v event \<Rightarrow> 'v ZAutocomplete \<Rightarrow> 'v ZAutocomplete" where
  "handle h (Input txt) s = onInput h (s\<lparr>inputEl := txt\<rparr>)"
| "handle h (Timeout t) s = timeout_fires t s"
| "handle h (Resolved k data) s =
     (if k < length (fetchCalls s) then onInputChange_resolved h data s else s)"
| "handle h (Keydown key) s = onKeydown h key s"
| "handle h (Click inside) s = handleClickOutside inside s"
| "handle h ClearClick s = onClear h s"
| "handle h (Assign val) s = value_set h val s"
| "handle h Disconnected s = disconnectedCallback s"

definition step :: "'v host \<Rightarrow> 'v ZAutocomplete \<Rightarrow> 'v event \<Rightarrow> 'v ZAutocomplete" where
  "step h s e = run_microtasks h (handle h e s)"

definition run :: "'v host \<Rightarrow> 'v event list \<Rightarrow> 'v ZAutocomplete \<Rightarrow> 'v ZAutocomplete" where
  "run h es s = foldl (step h) s es"

section \<open>The host of the demonstration page\<close>

text \<open>
  \<^verbatim>\<open>demo.ts\<close>: items with an \<^verbatim>\<open>id\<close> and a \<^verbatim>\<open>name\<close>; the items 1, 4 and 7 are titles,
  shown as disabled options with an element label; the listener prevents the event
  whose detail is the item 5. Its \<^verbatim>\<open>fetchData\<close> is not modelled: what a fetch resolves
  with is the data of a \<open>Resolved\<close> event.
\<close>

datatype OptionItem = OptionItem (item_id: int) (item_name: string)

definition demo_dataToOption :: "OptionItem option \<Rightarrow> OptionItem ZAutocompleteOption option" where
  "demo_dataToOption data =
     (case data of
        None \<Rightarrow> None
      | Some d \<Rightarrow>
          (let isTitle = item_id d \<in> set [1, 4, 7] in
           Some \<lparr>label = (if isTitle then Element (Some (item_name d)) else Text (item_name d)),
                 inputValue = Some (item_name d),
                 optionValue = Some d,
                 disabled = isTitle\<rparr>))"

definition demo_prevents :: "OptionItem option \<Rightarrow> bool" where
  "demo_prevents detail = (case detail of None \<Rightarrow> False | Some d \<Rightarrow> item_id d = 5)"

definition demo_host :: "OptionItem host" where
  "demo_host = \<lparr>dataToOption = demo_dataToOption, prevents = demo_prevents\<rparr>"

text \<open>Reachable states used as concrete inputs below.\<close>

definition titles_first :: "OptionItem ZAutocomplete" where
  "titles_first =
     run demo_host
       [Input ''o'', Timeout 0,
        Resolved 0 [OptionItem 1 ''Option1'', OptionItem 4 ''Option4'', OptionItem 2 ''Option2'']]
       (initial [])"

definition titles_only :: "OptionItem ZAutocomplete" where
  "titles_only =
     run demo_host
       [Input ''o'', Timeout 0,
        Resolved 0 [OptionItem 1 ''Option1'', OptionItem 4 ''Option4'', OptionItem 7 ''Option7'']]
       (initial [])"

definition pending_search :: "OptionItem ZAutocomplete" where
  "pending_search = run demo_host [Input ''a''] (initial [])"

definition searching :: "OptionItem ZAutocomplete" where
  "searching = run demo_host [Input ''a'', Timeout 0] (initial [])"

definition superseded :: "OptionItem ZAutocomplete" where
  "superseded =
     run demo_host
       [Input ''a'', Timeout 0, Input ''ab'', Timeout 1, Resolved 1 [OptionItem 3 ''Option3'']]
       (initial [])"

definition navigated :: "OptionItem ZAutocomplete" where
  "navigated =
     run demo_host
       [Input ''a'', Timeout 0, Input ''ab'', Timeout 1,
        Resolved 0 [OptionItem 2 ''Option2'', OptionItem 3 ''Option3'', OptionItem 5 ''Option5''],
        Keydown ''ArrowDown'', Keydown ''ArrowDown'', Keydown ''ArrowDown'']
       (initial [])"

section \<open>Notions used by the properties\<close>

text \<open>There is a current \<^verbatim>\<open>AbortController\<close> (a reference into the store).\<close>

definition has_controller :: "'v ZAutocomplete \<Rightarrow> bool" where
  "has_controller s =
     (case abortController s of None \<Rightarrow> False | Some c \<Rightarrow> c < length (controllers s))"

text \<open>
  The only timeouts of the widget are those of its one \<^verbatim>\<open>debounce\<close> closure: no timeout
  is armed, or the one the closure's variable \<^verbatim>\<open>timer\<close> holds.
\<close>

definition debounce_inv :: "'v ZAutocomplete \<Rightarrow> bool" where
  "debounce_inv s = (timeouts s = [] \<or> map Some (timeouts s) = [timer s])"

text \<open>The debounce window elapses with no other event: the armed timeouts fire.\<close>

definition elapse :: "'v host \<Rightarrow> 'v ZAutocomplete \<Rightarrow> 'v ZAutocomplete" where
  "elapse h s = run h (map Timeout (timeouts s)) s"

text \<open>
  The active index is "none", or the index of an option of the list that is not
  disabled.
\<close>

definition active_ok :: "'v ZAutocomplete \<Rightarrow> bool" where
  "active_ok s =
     (activeOptionIndex s = - 1 \<or>
      0 \<le> activeOptionIndex s \<and> activeOptionIndex s < int (length (optionList s)) \<and>
      \<not> disabled (optionList s ! nat (activeOptionIndex s)))"

text \<open>
  The controllers and the calls of \<^verbatim>\<open>fetchData\<close> as the handlers leave them: the current
  controller is the one created last, every earlier one is aborted, every call was given
  the signal of a controller of the store, and a timeout is armed only once a controller
  exists.
\<close>

definition signal_ok :: "nat \<Rightarrow> string \<times> nat option \<Rightarrow> bool" where
  "signal_ok n call = (case snd call of None \<Rightarrow> False | Some c \<Rightarrow> c < n)"

definition controllers_inv :: "'v ZAutocomplete \<Rightarrow> bool" where
  "controllers_inv s =
     (abortController s =
        (if controllers s = [] then None else Some (length (controllers s) - 1)) \<and>
      list_all (\<lambda>r. r \<noteq> None) (butlast (controllers s)) \<and>
      list_all (signal_ok (length (controllers s))) (fetchCalls s) \<and>
      (timeouts s = [] \<or> controllers s \<noteq> []))"

text \<open>The definitions to unfold when a run is evaluated on concrete events.\<close>

lemmas run_simps =
  run_def step_def run_microtasks_def value_then_def options_set_def open_set_def
  filter_Boolean_def onInput_def onClear_def value_set_def abort_def newAbortController_def
  debounce_def clearTimeout_def timeout_fires_def onInputChange_def onInputChange_resolved_def
  initial_def demo_host_def demo_dataToOption_def demo_prevents_def Let_def
  disconnectedCallback_def aborted_def onKeydown_def display_text_def label_text_def

section \<open>Properties of the setters and of the microtasks\<close>

lemma map_Some_filter_Boolean:
  "map Some (filter_Boolean val) = filter (\<lambda>x. x \<noteq> None) val"
  by (induction val) (auto simp add: filter_Boolean_def)

lemma options_set_fields:
  "optionList (options_set val s) = filter_Boolean val"
  "isOpen (options_set val s) = (val \<noteq> [] \<and> filter_Boolean val \<noteq> [])"
  "activeOptionIndex (options_set val s) =
     (if val \<noteq> [] \<and> filter_Boolean val \<noteq> [] then activeOptionIndex s else - 1)"
  by (simp_all add: options_set_def open_set_def Let_def)

lemma value_then_fields:
  "abortController (value_then h m s) = abortController s"
  "controllers (value_then h m s) = controllers s"
  "timer (value_then h m s) = timer s"
  "timeouts (value_then h m s) = timeouts s"
  "nextTimeout (value_then h m s) = nextTimeout s"
  "fetchCalls (value_then h m s) = fetchCalls s"
  "dispatched (value_then h m s) = dispatched s"
  "microtasks (value_then h m s) = microtasks s"
  "optionList (value_then h m s) = []"
  "isOpen (value_then h m s) = False"
  "activeOptionIndex (value_then h m s) = - 1"
  "committed (value_then h m s) = (if fst m then None else snd m)"
  "inputEl (value_then h m s) = (if fst m then [] else display_text (dataToOption h (snd m)))"
  by (simp_all add: value_then_def options_set_def open_set_def filter_Boolean_def)

lemma foldl_value_then_fields:
  "abortController (foldl (\<lambda>s' m. value_then h m s') s ms) = abortController s"
  "controllers (foldl (\<lambda>s' m. value_then h m s') s ms) = controllers s"
  "timer (foldl (\<lambda>s' m. value_then h m s') s ms) = timer s"
  "timeouts (foldl (\<lambda>s' m. value_then h m s') s ms) = timeouts s"
  "nextTimeout (foldl (\<lambda>s' m. value_then h m s') s ms) = nextTimeout s"
  "fetchCalls (foldl (\<lambda>s' m. value_then h m s') s ms) = fetchCalls s"
  "dispatched (foldl (\<lambda>s' m. value_then h m s') s ms) = dispatched s"
  "microtasks (foldl (\<lambda>s' m. value_then h m s') s ms) = microtasks s"
  by (induction ms arbitrary: s; simp add: value_then_fields)+

lemma run_microtasks_fields:
  "abortController (run_microtasks h s) = abortController s"
  "controllers (run_microtasks h s) = controllers s"
  "timer (run_microtasks h s) = timer s"
  "timeouts (run_microtasks h s) = timeouts s"
  "nextTimeout (run_microtasks h s) = nextTimeout s"
  "fetchCalls (run_microtasks h s) = fetchCalls s"
  "dispatched (run_microtasks h s) = dispatched s"
  "microtasks (run_microtasks h s) = []"
  by (simp_all add: run_microtasks_def foldl_value_then_fields)

lemma run_microtasks_Nil: "microtasks s = [] \<Longrightarrow> run_microtasks h s = s"
  by (simp add: run_microtasks_def)

lemma run_microtasks_snoc:
  "microtasks s = ms @ [m] \<Longrightarrow>
   run_microtasks h s = value_then h m (run_microtasks h (s\<lparr>microtasks := ms\<rparr>))"
  by (simp add: run_microtasks_def)

text \<open>
  C9. For every list assigned to \<^verbatim>\<open>options\<close>, the stored list is the input without its
  falsy entries, and afterwards the list is open if and only if the list assigned was
  not empty and the stored list is not empty.
\<close>

theorem options_set_filters_and_opens:
  "map Some (optionList (options_set val s)) = filter (\<lambda>x. x \<noteq> None) val \<and>
   isOpen (options_set val s) = (val \<noteq> [] \<and> optionList (options_set val s) \<noteq> [])"
  by (simp add: options_set_fields map_Some_filter_Boolean)

text \<open>
  C10. Every assignment to \<^verbatim>\<open>value\<close> dispatches exactly one \<^verbatim>\<open>'autocomplete'\<close> event,
  with the assigned value as its detail, whatever the committed value is and whether
  the host prevents the event or not: once the assignment and its deferred callback
  have run, the log of dispatched events has grown by that one event.
\<close>

theorem value_assignment_dispatches_once:
  "dispatched (value_set h val s) = dispatched s @ [val] \<and>
   dispatched (step h s (Assign val)) = dispatched s @ [val]"
  by (simp add: step_def run_microtasks_fields value_set_def)

text \<open>
  C2, as the code has it. The \<^verbatim>\<open>value\<close> setter itself commits nothing: right after the
  assignment of \<open>x\<close> the committed value and the text of the field are what they were.
  Once the deferred callback of the assignment has run, the committed value is \<open>x\<close> when
  the host did not prevent the event; when it did, the committed value is \<^verbatim>\<open>undefined\<close>
  and the text of the field is empty.
\<close>

theorem value_roundtrip:
  "committed (value_set h x s) = committed s \<and>
   inputEl (value_set h x s) = inputEl s \<and>
   committed (step h s (Assign x)) = (if prevents h x then None else x) \<and>
   inputEl (step h s (Assign x)) =
     (if prevents h x then [] else display_text (dataToOption h x))"
  by (simp add: step_def value_set_def run_microtasks_snoc [where ms = "microtasks s"]
      value_then_fields)

text \<open>
  C2 as stated fails: on a fresh widget the host of the demonstration page assigns the
  item 3, which its listener does not prevent; read right after the assignment, the
  committed value is still \<^verbatim>\<open>undefined\<close>.
\<close>

theorem value_read_before_callback:
  "demo_prevents (Some (OptionItem 3 ''Option3'')) = False \<and>
   committed (handle demo_host (Assign (Some (OptionItem 3 ''Option3''))) (initial [])) = None"
  by (simp add: demo_prevents_def value_set_def initial_def)

section \<open>Navigation\<close>

lemma navigate_skip:
  assumes "activeOptionIndex s < int j" "j \<le> K" "K < length (optionList s)"
    and "\<forall>i<K. disabled (optionList s ! i)" "\<not> disabled (optionList s ! K)"
  shows "navigateToOption (int j) s = s\<lparr>activeOptionIndex := int K\<rparr>"
  using assms
proof (induction "K - j" arbitrary: j)
  case 0
  then have "j = K" by simp
  with 0 show ?case by (subst navigateToOption.simps) simp
next
  case (Suc d)
  then have lt: "j < K" by simp
  with Suc.prems have dis: "disabled (optionList s ! j)" by simp
  have "navigateToOption (int j) s = navigateToOption (int (Suc j)) s"
    using Suc.prems lt dis by (subst navigateToOption.simps) (simp add: Let_def add.commute)
  also have "\<dots> = s\<lparr>activeOptionIndex := int K\<rparr>"
    using Suc.hyps(2) Suc.prems lt by (intro Suc.hyps(1)) simp_all
  finally show ?case .
qed

lemma navigate_off:
  assumes "activeOptionIndex s < n \<Longrightarrow>
      \<forall>i. nat n \<le> i \<and> i < length (optionList s) \<longrightarrow> disabled (optionList s ! i)"
    and "n < activeOptionIndex s \<Longrightarrow>
      \<forall>i. i \<le> nat n \<and> i < length (optionList s) \<longrightarrow> disabled (optionList s ! i)"
  shows "navigateToOption n s = s"
  using assms
proof (induction n s rule: navigateToOption.induct)
  case (1 n s)
  show ?case
  proof (cases "n < 0 \<or> n = activeOptionIndex s \<or> n > int (length (optionList s)) - 1")
    case True
    then show ?thesis by (subst navigateToOption.simps) auto
  next
    case False
    then have rng: "0 \<le> n" "n \<noteq> activeOptionIndex s" "nat n < length (optionList s)"
      by auto
    have dis: "disabled (optionList s ! nat n)"
      using rng 1(2,3) by (cases "activeOptionIndex s < n") auto
    let ?m = "activeOptionIndex s +
      (if n - activeOptionIndex s > 0 then n - activeOptionIndex s + 1
       else n - activeOptionIndex s - 1)"
    have "navigateToOption n s = navigateToOption ?m s"
      using False dis by (subst navigateToOption.simps) (simp add: Let_def)
    also have "\<dots> = s"
    proof (rule 1(1) [OF _ _ _ dis refl refl])
      show "\<not> n < 0" "n \<noteq> activeOptionIndex s" "\<not> int (length (optionList s)) - 1 < n"
        using False by auto
    next
      assume "activeOptionIndex s < ?m"
      then have "activeOptionIndex s < n" by (auto split: if_splits)
      with 1(2) show
        "\<forall>i. nat ?m \<le> i \<and> i < length (optionList s) \<longrightarrow> disabled (optionList s ! i)"
        using rng by auto
    next
      assume "?m < activeOptionIndex s"
      then have "n < activeOptionIndex s" using rng by (auto split: if_splits)
      with 1(3) show
        "\<forall>i. i \<le> nat ?m \<and> i < length (optionList s) \<longrightarrow> disabled (optionList s ! i)"
        using rng by auto
    qed
    finally show ?thesis .
  qed
qed

text \<open>
  C3. When the first \<open>K\<close> options are disabled and the others are not, with
  \<open>0 < K < length\<close>, navigating to the target 0 from the active index "none" sets the
  active index to \<open>K\<close>, and changes nothing else.
\<close>

theorem navigate_forward_skips_disabled_prefix:
  assumes "activeOptionIndex s = - 1" "0 < K" "K < length (optionList s)"
    and "list_all disabled (take K (optionList s))"
    and "list_all (\<lambda>opt. \<not> disabled opt) (drop K (optionList s))"
  shows "navigateToOption 0 s = s\<lparr>activeOptionIndex := int K\<rparr>"
proof -
  have a: "\<forall>i<K. disabled (optionList s ! i)"
    using assms(3,4) by (simp add: list_all_length)
  have "\<not> disabled (drop K (optionList s) ! 0)"
    using assms(3,5) by (simp add: list_all_length del: nth_drop)
  then have b: "\<not> disabled (optionList s ! K)"
    using assms(3) by simp
  show ?thesis
    using navigate_skip [of s 0 K] assms(1,3) a b by simp
qed

theorem navigate_forward_skips_disabled_prefix_witness:
  "activeOptionIndex titles_first = - 1 \<and> (0::nat) < 2 \<and>
   2 < length (optionList titles_first) \<and>
   list_all disabled (take 2 (optionList titles_first)) \<and>
   list_all (\<lambda>opt. \<not> disabled opt) (drop 2 (optionList titles_first)) \<and>
   navigateToOption 0 titles_first = titles_first\<lparr>activeOptionIndex := 2\<rparr>"
proof -
  have h: "activeOptionIndex titles_first = - 1" "(0::nat) < 2"
    "2 < length (optionList titles_first)"
    "list_all disabled (take 2 (optionList titles_first))"
    "list_all (\<lambda>opt. \<not> disabled opt) (drop 2 (optionList titles_first))"
    by (simp_all add: titles_first_def run_simps)
  from navigate_forward_skips_disabled_prefix [OF h] h show ?thesis by simp
qed

lemma list_all_drop_nth:
  assumes "list_all P (drop m xs)" "m \<le> i" "i < length xs"
  shows "P (xs ! i)"
proof -
  have "i - m < length (drop m xs)" using assms(2,3) by simp
  with assms(1) have "P (drop m xs ! (i - m))" by (simp only: list_all_length)
  then show ?thesis using assms(2,3) by simp
qed

lemma list_all_take_nth:
  assumes "list_all P (take m xs)" "i < m" "i < length xs"
  shows "P (xs ! i)"
proof -
  have "i < length (take m xs)" using assms(2,3) by simp
  with assms(1) have "P (take m xs ! i)" by (simp only: list_all_length)
  then show ?thesis using assms(2) by simp
qed

text \<open>
  C8. The function \<open>navigateToOption\<close> is total: its recursion terminates for every
  list, active index and target (the measure is the distance of the target to the end of
  the list it travels to). When no option that is not disabled exists from the target on
  in the direction of travel, as in a list whose options are all disabled, the state,
  and with it the active index, is unchanged.
\<close>

theorem navigate_without_enabled_target_is_noop:
  assumes "activeOptionIndex s < n \<Longrightarrow> list_all disabled (drop (nat n) (optionList s))"
    and "n < activeOptionIndex s \<Longrightarrow> 0 \<le> n \<Longrightarrow>
      list_all disabled (take (nat n + 1) (optionList s))"
  shows "navigateToOption n s = s"
proof (cases "n < 0")
  case True
  then show ?thesis by (subst navigateToOption.simps) simp
next
  case False
  show ?thesis
  proof (rule navigate_off)
    assume "activeOptionIndex s < n"
    then have "list_all disabled (drop (nat n) (optionList s))" by (rule assms(1))
    then show
      "\<forall>i. nat n \<le> i \<and> i < length (optionList s) \<longrightarrow> disabled (optionList s ! i)"
      by (blast intro: list_all_drop_nth)
  next
    assume "n < activeOptionIndex s"
    with False have "list_all disabled (take (nat n + 1) (optionList s))"
      by (intro assms(2)) simp_all
    then show
      "\<forall>i. i \<le> nat n \<and> i < length (optionList s) \<longrightarrow> disabled (optionList s ! i)"
      using list_all_take_nth [of disabled "nat n + 1" "optionList s"] by auto
  qed
qed

theorem navigate_without_enabled_target_is_noop_witness:
  "activeOptionIndex titles_only < 0 \<and>
   list_all disabled (drop (nat 0) (optionList titles_only)) \<and>
   navigateToOption 0 titles_only = titles_only"
proof -
  have a: "activeOptionIndex titles_only < 0"
    and d: "list_all disabled (drop (nat 0) (optionList titles_only))"
    by (simp_all add: titles_only_def run_simps)
  have "navigateToOption 0 titles_only = titles_only"
    using a d by (intro navigate_without_enabled_target_is_noop) simp_all
  with a d show ?thesis by simp
qed

section \<open>Input events\<close>

lemma abort_fields:
  "abortController (abort r s) = abortController s"
  "length (controllers (abort r s)) = length (controllers s)"
  "inputEl (abort r s) = inputEl s"
  "timer (abort r s) = timer s"
  "timeouts (abort r s) = timeouts s"
  "nextTimeout (abort r s) = nextTimeout s"
  "fetchCalls (abort r s) = fetchCalls s"
  "dispatched (abort r s) = dispatched s"
  "microtasks (abort r s) = microtasks s"
  "optionList (abort r s) = optionList s"
  "isOpen (abort r s) = isOpen s"
  "activeOptionIndex (abort r s) = activeOptionIndex s"
  "committed (abort r s) = committed s"
  by (simp_all add: abort_def split: option.splits)

lemma abort_aborts:
  "abortController s = Some c \<Longrightarrow> c < length (controllers s) \<Longrightarrow>
   \<exists>y. controllers (abort r s) ! c = Some y"
  by (auto simp add: abort_def split: option.splits)

lemma options_set_other_fields:
  "abortController (options_set val s) = abortController s"
  "controllers (options_set val s) = controllers s"
  "inputEl (options_set val s) = inputEl s"
  "timer (options_set val s) = timer s"
  "timeouts (options_set val s) = timeouts s"
  "nextTimeout (options_set val s) = nextTimeout s"
  "fetchCalls (options_set val s) = fetchCalls s"
  "dispatched (options_set val s) = dispatched s"
  "microtasks (options_set val s) = microtasks s"
  "committed (options_set val s) = committed s"
  by (simp_all add: options_set_def open_set_def Let_def)

lemma onInput_empty_fields:
  assumes "inputEl s = []"
  shows "timer (onInput h s) = timer s"
    "timeouts (onInput h s) = timeouts s"
    "nextTimeout (onInput h s) = nextTimeout s"
    "fetchCalls (onInput h s) = fetchCalls s"
    "abortController (onInput h s) = abortController s"
    "length (controllers (onInput h s)) = length (controllers s)"
    "optionList (onInput h s) = []"
    "isOpen (onInput h s) = False"
    "activeOptionIndex (onInput h s) = - 1"
    "dispatched (onInput h s) = dispatched s @ [None]"
    "microtasks (onInput h s) = microtasks s @ [(prevents h None, None)]"
  using assms
  by (simp_all add: onInput_def Let_def onClear_def value_set_def abort_fields
      options_set_other_fields options_set_fields filter_Boolean_def)

lemma onInput_nonempty_fields:
  assumes "inputEl s \<noteq> []"
  shows "timer (onInput h s) = Some (nextTimeout s)"
    "timeouts (onInput h s) = clearTimeout (timer s) (timeouts s) @ [nextTimeout s]"
    "fetchCalls (onInput h s) = fetchCalls s"
    "abortController (onInput h s) = Some (length (controllers s))"
    "inputEl (onInput h s) = inputEl s"
    "microtasks (onInput h s) = microtasks s"
  using assms
  by (simp_all add: onInput_def Let_def debounce_def newAbortController_def abort_fields
      options_set_other_fields)


section \<open>Fetches\<close>

lemma onInput_nonempty_aborts:
  assumes "inputEl s \<noteq> []" "abortController s = Some a" "a < length (controllers s)"
  shows "aborted (onInput h s) (Some a)"
    and "\<not> aborted (onInput h s) (abortController (onInput h s))"
proof -
  let ?t = "abort ''ZAutocomplete : A new search has been performed'' (options_set [] s)"
  have l: "length (controllers ?t) = length (controllers s)"
    by (simp add: abort_fields options_set_other_fields)
  have "\<exists>y. controllers ?t ! a = Some y"
    using assms(2,3) by (intro abort_aborts) (simp_all add: options_set_other_fields)
  then show "aborted (onInput h s) (Some a)"
    using assms(1,3) l
    by (auto simp add: aborted_def onInput_def Let_def debounce_def newAbortController_def
        options_set_other_fields nth_append)
  show "\<not> aborted (onInput h s) (abortController (onInput h s))"
    using assms(1) l
    by (simp add: aborted_def onInput_def Let_def debounce_def newAbortController_def
        options_set_other_fields nth_append)
qed

text \<open>
  C1, as the code has it. An \<^verbatim>\<open>input\<close> event with a text aborts the signal of the
  controller that was current and installs a new controller whose signal is not aborted.
  The method never reads a signal: when the promise of any call of \<^verbatim>\<open>fetchData\<close>
  resolves, the mapped results, without the falsy ones, replace the option list,
  whether the signal given to that call is aborted or not.
\<close>

theorem resolved_fetch_replaces_options:
  assumes "q \<noteq> []" "abortController s = Some a" "a < length (controllers s)"
    and "k < length (fetchCalls s')"
  shows "aborted (handle h (Input q) s) (Some a) \<and>
    \<not> aborted (handle h (Input q) s) (abortController (handle h (Input q) s)) \<and>
    optionList (handle h (Resolved k data) s') =
      filter_Boolean (map (\<lambda>d. dataToOption h (Some d)) data)"
  using assms onInput_nonempty_aborts [of "s\<lparr>inputEl := q\<rparr>" a h]
  by (simp add: onInputChange_resolved_def options_set_fields)

text \<open>
  C1 as stated fails. In \<open>superseded\<close> the search for \<^verbatim>\<open>a\<close> has been superseded by the
  search for \<^verbatim>\<open>ab\<close>, whose result is shown; the signal of the first call is aborted.
  When the first promise resolves after that, its result replaces the list.
\<close>

theorem superseded_fetch_applied:
  "aborted superseded (snd (fetchCalls superseded ! 0)) \<and>
   map optionValue (optionList superseded) = [Some (OptionItem 3 ''Option3'')] \<and>
   map optionValue
     (optionList (step demo_host superseded (Resolved 0 [OptionItem 2 ''Option2'']))) =
     [Some (OptionItem 2 ''Option2'')]"
  by (simp add: superseded_def run_simps)

theorem resolved_fetch_replaces_options_witness:
  "aborted (handle demo_host (Input ''ab'') pending_search) (Some 0) \<and>
   aborted superseded (snd (fetchCalls superseded ! 0)) \<and>
   optionList (handle demo_host (Resolved 0 [OptionItem 2 ''Option2'']) superseded) =
     filter_Boolean (map (\<lambda>d. dataToOption demo_host (Some d)) [OptionItem 2 ''Option2''])"
proof -
  have h: "''ab'' \<noteq> []" "abortController pending_search = Some 0"
    "0 < length (controllers pending_search)" "0 < length (fetchCalls superseded)"
    by (simp_all add: pending_search_def superseded_def run_simps)
  have a: "aborted superseded (snd (fetchCalls superseded ! 0))"
    by (simp add: superseded_def run_simps)
  from resolved_fetch_replaces_options [OF h, of demo_host "[OptionItem 2 ''Option2'']"] a show ?thesis by simp
qed

section \<open>Teardown\<close>

text \<open>
  C4, as the code has it. \<^verbatim>\<open>disconnectedCallback\<close> leaves an armed timeout armed. When
  it fires afterwards, \<^verbatim>\<open>fetchData\<close> is called with the text of the field and the signal
  of the current controller, which the teardown has aborted.
\<close>

theorem timeout_survives_teardown:
  assumes "t \<in> set (timeouts s)" "abortController s = Some c" "c < length (controllers s)"
  shows "timeouts (disconnectedCallback s) = timeouts s \<and>
    fetchCalls (timeout_fires t (disconnectedCallback s)) =
      fetchCalls s @ [(inputEl s, Some c)] \<and>
    aborted (timeout_fires t (disconnectedCallback s)) (Some c)"
proof -
  let ?d = "disconnectedCallback s"
  have "\<exists>y. controllers ?d ! c = Some y"
    unfolding disconnectedCallback_def using assms(2,3) by (rule abort_aborts)
  then show ?thesis
    using assms
    by (simp add: timeout_fires_def onInputChange_def disconnectedCallback_def abort_fields
        aborted_def)
qed

theorem timeout_survives_teardown_witness:
  "0 \<in> set (timeouts pending_search) \<and> abortController pending_search = Some 0 \<and>
   timeouts (disconnectedCallback pending_search) = timeouts pending_search \<and>
   fetchCalls (timeout_fires 0 (disconnectedCallback pending_search)) = [(''a'', Some 0)] \<and>
   aborted (timeout_fires 0 (disconnectedCallback pending_search)) (Some 0)"
proof -
  have h: "0 \<in> set (timeouts pending_search)" "abortController pending_search = Some 0"
    "0 < length (controllers pending_search)"
    by (simp_all add: pending_search_def run_simps)
  have f: "fetchCalls pending_search = []" "inputEl pending_search = ''a''"
    by (simp_all add: pending_search_def run_simps)
  from timeout_survives_teardown [OF h] h f show ?thesis by simp
qed

text \<open>
  C4 as stated fails. In \<open>pending_search\<close> a search is armed; after the disconnection
  its timeout is still armed, and firing it calls \<^verbatim>\<open>fetchData\<close>.
\<close>

theorem teardown_timer_fires:
  "timeouts (step demo_host pending_search Disconnected) = [0] \<and>
   fetchCalls (run demo_host [Disconnected, Timeout 0] pending_search) = [(''a'', Some 0)]"
  by (simp add: pending_search_def run_simps)


section \<open>The active index\<close>

text \<open>
  Navigation assigns the active index only to the index of an option that is not
  disabled, and changes nothing else.
\<close>

lemma navigateToOption_result:
  "navigateToOption n s = s \<or>
   (\<exists>i. 0 \<le> i \<and> i < int (length (optionList s)) \<and> \<not> disabled (optionList s ! nat i) \<and>
        navigateToOption n s = s\<lparr>activeOptionIndex := i\<rparr>)"
proof (induction n s rule: navigateToOption.induct)
  case (1 n s)
  show ?case
  proof (cases "n < 0 \<or> n = activeOptionIndex s \<or> n > int (length (optionList s)) - 1")
    case True
    then show ?thesis by (subst navigateToOption.simps) auto
  next
    case False
    show ?thesis
    proof (cases "disabled (optionList s ! nat n)")
      case True
      let ?m = "activeOptionIndex s +
        (if n - activeOptionIndex s > 0 then n - activeOptionIndex s + 1
         else n - activeOptionIndex s - 1)"
      have eq: "navigateToOption n s = navigateToOption ?m s"
        using False True by (subst navigateToOption.simps) (simp add: Let_def)
      have "navigateToOption ?m s = s \<or>
        (\<exists>i. 0 \<le> i \<and> i < int (length (optionList s)) \<and> \<not> disabled (optionList s ! nat i) \<and>
          navigateToOption ?m s = s\<lparr>activeOptionIndex := i\<rparr>)"
        using False by (intro 1 [OF _ _ _ True refl refl]) auto
      with eq show ?thesis by simp
    next
      case dis: False
      have "navigateToOption n s = s\<lparr>activeOptionIndex := n\<rparr>"
        using False dis by (subst navigateToOption.simps) simp
      with False dis show ?thesis by (intro disjI2 exI [of _ n]) auto
    qed
  qed
qed

lemma navigateToOption_active_ok:
  assumes "active_ok s"
  shows "active_ok (navigateToOption n s)"
  using navigateToOption_result [of n s] assms
  by (auto simp add: active_ok_def)

lemma navigateToOption_not_none:
  assumes "activeOptionIndex (navigateToOption n s) = - 1"
  shows "activeOptionIndex s = - 1"
  using navigateToOption_result [of n s] assms by auto

lemma navigateToOption_timeouts:
  "timeouts (navigateToOption n s) = timeouts s"
  "timer (navigateToOption n s) = timer s"
  "microtasks (navigateToOption n s) = microtasks s"
  using navigateToOption_result [of n s] by auto

text \<open>
  The setters: closing resets the index; the \<^verbatim>\<open>options\<close> setter keeps the index it
  finds when the list it stores is not empty.
\<close>

lemma open_set_active_ok: "active_ok s \<Longrightarrow> active_ok (open_set val s)"
  by (simp add: active_ok_def open_set_def Let_def)

lemma value_then_active_ok: "active_ok (value_then h m s)"
  by (simp add: active_ok_def value_then_fields)

lemma options_set_active_ok:
  "activeOptionIndex s = - 1 \<or> filter_Boolean val = [] \<Longrightarrow> active_ok (options_set val s)"
  by (auto simp add: active_ok_def options_set_fields)

text \<open>
  C7 fails in the \<^verbatim>\<open>options\<close> setter. In \<open>navigated\<close> three options are shown and
  the third one is active. When the promise of the later search then resolves with one
  item, the setter stores the one option and leaves the active index at 2, which is no
  index of the list.
\<close>

theorem stale_active_index_after_options_set:
  "active_ok navigated \<and>
   activeOptionIndex (step demo_host navigated (Resolved 1 [OptionItem 2 ''Option2''])) = 2 \<and>
   length (optionList (step demo_host navigated (Resolved 1 [OptionItem 2 ''Option2'']))) = 1 \<and>
   \<not> active_ok (step demo_host navigated (Resolved 1 [OptionItem 2 ''Option2'']))"
  by (simp add: navigated_def run_simps active_ok_def navigateToOption.simps)

section \<open>The debounce closure\<close>

lemma open_set_other_fields:
  "timer (open_set val s) = timer s"
  "timeouts (open_set val s) = timeouts s"
  "microtasks (open_set val s) = microtasks s"
  "optionList (open_set val s) = optionList s"
  by (simp_all add: open_set_def Let_def)

lemma selectOption_timeouts:
  "timer (selectOption h option s) = timer s"
  "timeouts (selectOption h option s) = timeouts s"
  by (simp_all add: selectOption_def value_set_def split: option.splits)

lemma onKeydown_timeouts:
  "timer (onKeydown h key s) = timer s"
  "timeouts (onKeydown h key s) = timeouts s"
  by (simp_all add: onKeydown_def navigateToOption_timeouts selectOption_timeouts
      open_set_other_fields)

lemma debounce_inv_clearTimeout:
  assumes "debounce_inv s"
  shows "clearTimeout (timer s) (timeouts s) = []"
proof (cases "timeouts s = []")
  case True
  then show ?thesis by (simp add: clearTimeout_def split: option.splits)
next
  case False
  with assms have "map Some (timeouts s) = [timer s]" by (simp add: debounce_inv_def)
  then obtain z where "timeouts s = [z]" "timer s = Some z" by auto
  then show ?thesis by (simp add: clearTimeout_def)
qed

lemma debounce_inv_onInput:
  assumes "debounce_inv s"
  shows "debounce_inv (onInput h s)"
proof (cases "inputEl s = []")
  case True
  then show ?thesis
    using assms by (simp add: debounce_inv_def onInput_empty_fields)
next
  case False
  then show ?thesis
    using assms
    by (simp add: debounce_inv_def onInput_nonempty_fields debounce_inv_clearTimeout)
qed

lemma debounce_inv_timeout_fires:
  assumes "debounce_inv s"
  shows "debounce_inv (timeout_fires t s)"
  using assms
  by (auto simp add: debounce_inv_def timeout_fires_def onInputChange_def)

lemma debounce_inv_handle:
  assumes "debounce_inv s"
  shows "debounce_inv (handle h e s)"
proof (cases e)
  case (Input q)
  have "debounce_inv (s\<lparr>inputEl := q\<rparr>)"
    using assms by (simp add: debounce_inv_def)
  then show ?thesis
    unfolding Input handle.simps by (rule debounce_inv_onInput)
next
  case (Timeout t)
  then show ?thesis using assms by (simp add: debounce_inv_timeout_fires)
next
  case (Resolved k data)
  then show ?thesis
    using assms
    by (simp add: debounce_inv_def onInputChange_resolved_def options_set_other_fields)
next
  case (Keydown key)
  then show ?thesis using assms by (simp add: debounce_inv_def onKeydown_timeouts)
next
  case (Click inside)
  then show ?thesis
    using assms by (simp add: debounce_inv_def handleClickOutside_def open_set_other_fields)
next
  case ClearClick
  then show ?thesis
    using assms by (simp add: debounce_inv_def onClear_def value_set_def abort_fields)
next
  case (Assign val)
  then show ?thesis using assms by (simp add: debounce_inv_def value_set_def)
next
  case Disconnected
  then show ?thesis
    using assms by (simp add: debounce_inv_def disconnectedCallback_def abort_fields)
qed

lemma debounce_inv_step:
  assumes "debounce_inv s"
  shows "debounce_inv (step h s e) \<and> microtasks (step h s e) = []"
  using debounce_inv_handle [OF assms, of h e]
  by (simp add: step_def run_microtasks_fields debounce_inv_def)

lemma debounce_inv_run:
  assumes "debounce_inv s" "microtasks s = []"
  shows "debounce_inv (run h es s) \<and> microtasks (run h es s) = []"
proof (induction es rule: rev_induct)
  case Nil
  with assms show ?case by (simp add: run_def)
next
  case (snoc e es)
  then show ?case using debounce_inv_step [of "run h es s" h e] by (simp add: run_def)
qed

lemma debounce_inv_initial: "debounce_inv (initial q) \<and> microtasks (initial q) = []"
  by (simp add: debounce_inv_def initial_def)


lemma step_Input_nonempty:
  assumes "q \<noteq> []" "microtasks s = []"
  shows "step h s (Input q) = onInput h (s\<lparr>inputEl := q\<rparr>)"
  using assms by (simp add: step_def run_microtasks_Nil onInput_nonempty_fields)

lemma step_Input_empty_inputEl:
  "inputEl (step h s (Input [])) =
     (if prevents h None then [] else display_text (dataToOption h None))"
proof -
  let ?s = "s\<lparr>inputEl := []\<rparr>"
  have m: "microtasks (onInput h ?s) = microtasks ?s @ [(prevents h None, None)]"
    by (rule onInput_empty_fields) simp
  show ?thesis
    by (simp add: step_def run_microtasks_snoc [OF m] value_then_fields)
qed

lemma step_Input_fields:
  assumes "debounce_inv s" "microtasks s = []"
  shows "timeouts (step h s (Input q)) = (if q \<noteq> [] then [nextTimeout s] else timeouts s)"
    and "fetchCalls (step h s (Input q)) = fetchCalls s"
    and "inputEl (step h s (Input q)) =
      (if q \<noteq> [] then q
       else if prevents h None then [] else display_text (dataToOption h None))"
proof -
  have c: "clearTimeout (timer (s\<lparr>inputEl := q\<rparr>)) (timeouts (s\<lparr>inputEl := q\<rparr>)) = []"
    using debounce_inv_clearTimeout [OF assms(1)] by simp
  show "inputEl (step h s (Input q)) =
      (if q \<noteq> [] then q
       else if prevents h None then [] else display_text (dataToOption h None))"
    using assms(2) by (simp add: step_Input_empty_inputEl step_Input_nonempty onInput_nonempty_fields)
  show "fetchCalls (step h s (Input q)) = fetchCalls s"
    by (cases "q = []")
       (simp_all add: step_def run_microtasks_fields onInput_empty_fields onInput_nonempty_fields)
  show "timeouts (step h s (Input q)) = (if q \<noteq> [] then [nextTimeout s] else timeouts s)"
    using c
    by (cases "q = []")
       (simp_all add: step_def run_microtasks_fields onInput_empty_fields onInput_nonempty_fields)
qed

lemma run_snoc: "run h (es @ [e]) s = step h (run h es s) e"
  by (simp add: run_def)

lemma run_inputs:
  assumes "debounce_inv s" "microtasks s = []"
  shows "fetchCalls (run h (map Input qs) s) = fetchCalls s \<and>
    ((\<exists>q\<in>set qs. q \<noteq> []) \<longrightarrow> (\<exists>t. timeouts (run h (map Input qs) s) = [t])) \<and>
    (qs \<noteq> [] \<longrightarrow> inputEl (run h (map Input qs) s) =
      (if last qs \<noteq> [] then last qs
       else if prevents h None then [] else display_text (dataToOption h None)))"
proof (induction qs rule: rev_induct)
  case Nil
  show ?case by (simp add: run_def)
next
  case (snoc q qs)
  let ?s = "run h (map Input qs) s"
  from debounce_inv_run [OF assms, of h "map Input qs"]
  have a: "debounce_inv ?s" and m: "microtasks ?s = []" by simp_all
  note st = step_Input_fields [OF a m, of h q]
  show ?case
    using snoc st by (auto simp add: run_snoc)
qed

lemma elapse_single:
  assumes "timeouts s = [t]" "microtasks s = []"
  shows "elapse h s = onInputChange (s\<lparr>timeouts := []\<rparr>)"
  using assms
  by (simp add: elapse_def run_def step_def timeout_fires_def run_microtasks_Nil onInputChange_def)

lemma run_empty_inputs:
  assumes "list_all (\<lambda>q. q = []) qs"
  shows "timeouts (run h (map Input qs) s) = timeouts s \<and>
    timer (run h (map Input qs) s) = timer s \<and>
    fetchCalls (run h (map Input qs) s) = fetchCalls s"
  using assms
proof (induction qs rule: rev_induct)
  case Nil
  show ?case by (simp add: run_def)
next
  case (snoc q qs)
  then have q: "q = []" and qs: "list_all (\<lambda>q. q = []) qs" by simp_all
  have e: "inputEl (run h (map Input qs) s\<lparr>inputEl := []\<rparr>) = []" by simp
  show ?case
    using snoc.IH [OF qs] q onInput_empty_fields [OF e, of h]
    by (simp add: run_snoc step_def run_microtasks_fields)
qed

text \<open>
  C5, as the code has it. Take a state between two tasks and a sequence of \<^verbatim>\<open>input\<close>
  events, each followed by its microtasks, with no timeout firing in between. When at
  least one of the events leaves a text in the field, no call of \<^verbatim>\<open>fetchData\<close> is made
  during the sequence, and when the window elapses exactly one call is made and no timeout
  stays armed. The call carries the signal of the current controller and the text of the
  field: the text of the last event or, when that text is empty, what the clear path
  wrote into the field.
\<close>

theorem debounce_one_trailing_fetch:
  assumes "debounce_inv s" "microtasks s = []" "\<exists>q\<in>set qs. q \<noteq> []"
  shows "fetchCalls (run h (map Input qs) s) = fetchCalls s \<and>
    fetchCalls (elapse h (run h (map Input qs) s)) =
      fetchCalls s @
        [(if last qs \<noteq> [] then last qs
          else if prevents h None then [] else display_text (dataToOption h None),
          abortController (run h (map Input qs) s))] \<and>
    timeouts (elapse h (run h (map Input qs) s)) = []"
proof -
  let ?s = "run h (map Input qs) s"
  from assms(3) have ne: "qs \<noteq> []" by auto
  from debounce_inv_run [OF assms(1,2), of h "map Input qs"]
  have m: "microtasks ?s = []" by simp
  from run_inputs [OF assms(1,2), of h qs] assms(3) ne
  obtain t where t: "timeouts ?s = [t]"
    and f: "fetchCalls ?s = fetchCalls s"
    and i: "inputEl ?s = (if last qs \<noteq> [] then last qs
          else if prevents h None then [] else display_text (dataToOption h None))"
    by blast
  show ?thesis
    using f i by (simp add: elapse_single [OF t m] onInputChange_def)
qed

theorem debounce_one_trailing_fetch_witness:
  "debounce_inv (initial [] :: OptionItem ZAutocomplete) \<and>
   fetchCalls (run demo_host (map Input [''ab'', ''abc'']) (initial [])) = [] \<and>
   fetchCalls (elapse demo_host (run demo_host (map Input [''ab'', ''abc'']) (initial []))) =
     [(''abc'', Some 1)] \<and>
   timeouts (elapse demo_host (run demo_host (map Input [''ab'', ''abc'']) (initial []))) = []"
proof -
  have h: "debounce_inv (initial [] :: OptionItem ZAutocomplete)"
    "microtasks (initial [] :: OptionItem ZAutocomplete) = []"
    "\<exists>q\<in>set [''ab'', ''abc'']. q \<noteq> []"
    by (simp_all add: debounce_inv_def initial_def)
  have a: "abortController (run demo_host (map Input [''ab'', ''abc'']) (initial [])) = Some 1"
    "fetchCalls (initial [] :: OptionItem ZAutocomplete) = []"
    by (simp_all add: run_simps)
  from debounce_one_trailing_fetch [OF h, of demo_host] h(1) a show ?thesis by simp
qed

text \<open>
  C5 as stated fails: after a single \<^verbatim>\<open>input\<close> event that leaves the field empty,
  the window elapses without any call of \<^verbatim>\<open>fetchData\<close>.
\<close>

theorem empty_inputs_no_fetch:
  "fetchCalls (elapse demo_host (run demo_host (map Input [[]]) (initial []))) = []"
  by (simp add: elapse_def run_simps)

section \<open>Clearing the field\<close>

lemma signal_ok_Suc: "list_all (signal_ok n) calls \<Longrightarrow> list_all (signal_ok (Suc n)) calls"
  by (induction calls) (auto simp add: signal_ok_def split: option.splits)

lemma signal_ok_aborted:
  assumes "list_all (\<lambda>r. r \<noteq> None) (controllers s)"
    and "list_all (signal_ok (length (controllers s))) calls"
  shows "list_all (\<lambda>call. aborted s (snd call)) calls"
  using assms(2)
proof (induction calls)
  case Nil
  then show ?case by simp
next
  case (Cons call calls)
  then obtain c where c: "snd call = Some c" "c < length (controllers s)"
    by (auto simp add: signal_ok_def split: option.splits)
  with assms(1) have "controllers s ! c \<noteq> None" by (simp add: list_all_length)
  with c Cons show ?case by (simp add: aborted_def)
qed

lemma butlast_update_last: "butlast (xs[length xs - Suc 0 := v]) = butlast xs"
  by (induction xs rule: rev_induct) simp_all

lemma abort_controllers:
  "controllers (abort r s) = controllers s \<or>
   (\<exists>c. abortController s = Some c \<and> controllers (abort r s) = (controllers s)[c := Some r])"
  by (auto simp add: abort_def split: option.splits)

lemma controllers_inv_abort_all:
  assumes "controllers_inv s"
  shows "list_all (\<lambda>r. r \<noteq> None) (controllers (abort r s))"
proof (cases "controllers s = []")
  case True
  then show ?thesis using assms by (simp add: controllers_inv_def abort_def)
next
  case False
  let ?n = "length (controllers s) - 1"
  from False assms have c: "abortController s = Some ?n"
    and b: "list_all (\<lambda>r. r \<noteq> None) (butlast (controllers s))"
    by (simp_all add: controllers_inv_def)
  from False have n: "?n < length (controllers s)" by simp
  have l: "\<exists>y. controllers (abort r s) ! ?n = Some y"
    using c n by (rule abort_aborts)
  have bl: "butlast (controllers (abort r s)) = butlast (controllers s)"
    using abort_controllers [of r s] c by (auto simp add: butlast_update_last)
  have len: "length (controllers (abort r s)) = length (controllers s)"
    by (simp add: abort_fields)
  have ne: "controllers (abort r s) \<noteq> []" using False len by auto
  have "controllers (abort r s) = butlast (controllers (abort r s)) @ [last (controllers (abort r s))]"
    using ne by simp
  moreover have "last (controllers (abort r s)) \<noteq> None"
    using l ne len by (auto simp add: last_conv_nth)
  ultimately have "list_all (\<lambda>r. r \<noteq> None) (controllers (abort r s)) =
      (list_all (\<lambda>r. r \<noteq> None) (butlast (controllers (abort r s))) \<and>
       last (controllers (abort r s)) \<noteq> None)"
    by (metis list_all_append list.pred_inject(2) list.pred_inject(1))
  then show ?thesis
    using b bl \<open>last (controllers (abort r s)) \<noteq> None\<close> by simp
qed

lemma controllers_inv_abort:
  assumes "controllers_inv s"
  shows "controllers_inv (abort r s)"
proof -
  have bl: "butlast (controllers (abort r s)) = butlast (controllers s)"
  proof (cases "controllers s = []")
    case True
    then show ?thesis using assms by (simp add: controllers_inv_def abort_def)
  next
    case False
    with assms have "abortController s = Some (length (controllers s) - 1)"
      by (simp add: controllers_inv_def)
    then show ?thesis
      using abort_controllers [of r s] by (auto simp add: butlast_update_last)
  qed
  have len: "length (controllers (abort r s)) = length (controllers s)"
    by (simp add: abort_fields)
  then have e: "(controllers (abort r s) = []) = (controllers s = [])" by (metis length_0_conv)
  show ?thesis
    using assms bl len e
    by (simp add: controllers_inv_def abort_fields)
qed

lemma controllers_inv_same:
  assumes "controllers_inv s"
    and "abortController s' = abortController s" "controllers s' = controllers s"
    and "fetchCalls s' = fetchCalls s" "timeouts s' = timeouts s"
  shows "controllers_inv s'"
  using assms by (simp add: controllers_inv_def)

lemma controllers_inv_onInput:
  assumes "controllers_inv s"
  shows "controllers_inv (onInput h s)"
proof (cases "inputEl s = []")
  case True
  let ?t = "options_set [] s"
  have t: "controllers_inv ?t"
    using assms by (rule controllers_inv_same) (simp_all add: options_set_other_fields)
  have "controllers_inv (abort ''ZAutocomplete [data-z-autocomplete-input] has been cleared.'' ?t)"
    using t by (rule controllers_inv_abort)
  then show ?thesis
    using True
    by (simp add: onInput_def Let_def options_set_other_fields onClear_def value_set_def
        controllers_inv_def)
next
  case False
  let ?t = "options_set [] s"
  let ?a = "abort ''ZAutocomplete : A new search has been performed'' ?t"
  have t: "controllers_inv ?t"
    using assms by (rule controllers_inv_same) (simp_all add: options_set_other_fields)
  have all: "list_all (\<lambda>r. r \<noteq> None) (controllers ?a)"
    using t by (rule controllers_inv_abort_all)
  have a: "controllers_inv ?a" using t by (rule controllers_inv_abort)
  then have "list_all (signal_ok (length (controllers ?a))) (fetchCalls ?a)"
    by (simp add: controllers_inv_def)
  then have f: "list_all (signal_ok (Suc (length (controllers ?a)))) (fetchCalls ?a)"
    by (rule signal_ok_Suc)
  show ?thesis
    using False all f
    by (simp add: controllers_inv_def onInput_def Let_def options_set_other_fields debounce_def
        newAbortController_def)
qed

lemma controllers_inv_timeout_fires:
  assumes "controllers_inv s"
  shows "controllers_inv (timeout_fires t s)"
proof (cases "t \<in> set (timeouts s)")
  case False
  then show ?thesis using assms by (simp add: timeout_fires_def)
next
  case True
  then have "timeouts s \<noteq> []" by auto
  with assms have ne: "controllers s \<noteq> []" by (auto simp add: controllers_inv_def)
  have "signal_ok (length (controllers s)) (inputEl s, Some (length (controllers s) - 1))"
    using ne by (simp add: signal_ok_def)
  then show ?thesis
    using assms True ne
    by (simp add: controllers_inv_def timeout_fires_def onInputChange_def)
qed

lemma navigateToOption_controllers:
  "abortController (navigateToOption n s) = abortController s"
  "controllers (navigateToOption n s) = controllers s"
  "fetchCalls (navigateToOption n s) = fetchCalls s"
  using navigateToOption_result [of n s] by auto

lemma selectOption_controllers:
  "abortController (selectOption h option s) = abortController s"
  "controllers (selectOption h option s) = controllers s"
  "fetchCalls (selectOption h option s) = fetchCalls s"
  by (simp_all add: selectOption_def value_set_def split: option.splits)

lemma open_set_controllers:
  "abortController (open_set val s) = abortController s"
  "controllers (open_set val s) = controllers s"
  "fetchCalls (open_set val s) = fetchCalls s"
  by (simp_all add: open_set_def Let_def)

lemma onKeydown_controllers:
  "abortController (onKeydown h key s) = abortController s"
  "controllers (onKeydown h key s) = controllers s"
  "fetchCalls (onKeydown h key s) = fetchCalls s"
  by (simp_all add: onKeydown_def navigateToOption_controllers selectOption_controllers
      open_set_controllers)

lemma controllers_inv_handle:
  assumes "controllers_inv s"
  shows "controllers_inv (handle h e s)"
proof (cases e)
  case (Input q)
  have "controllers_inv (s\<lparr>inputEl := q\<rparr>)"
    using assms by (rule controllers_inv_same) simp_all
  then show ?thesis
    unfolding Input handle.simps by (rule controllers_inv_onInput)
next
  case (Timeout t)
  then show ?thesis using assms by (simp add: controllers_inv_timeout_fires)
next
  case (Resolved k data)
  show ?thesis
    using assms unfolding Resolved
    by (rule controllers_inv_same)
       (simp_all add: onInputChange_resolved_def options_set_other_fields)
next
  case (Keydown key)
  show ?thesis
    using assms unfolding Keydown
    by (rule controllers_inv_same) (simp_all add: onKeydown_controllers onKeydown_timeouts)
next
  case (Click inside)
  show ?thesis
    using assms unfolding Click
    by (rule controllers_inv_same)
       (simp_all add: handleClickOutside_def open_set_controllers open_set_other_fields)
next
  case ClearClick
  have "controllers_inv (abort ''ZAutocomplete [data-z-autocomplete-input] has been cleared.'' s)"
    using assms by (rule controllers_inv_abort)
  then show ?thesis
    unfolding ClearClick
    by (rule controllers_inv_same) (simp_all add: onClear_def value_set_def)
next
  case (Assign val)
  show ?thesis
    using assms unfolding Assign
    by (rule controllers_inv_same) (simp_all add: value_set_def)
next
  case Disconnected
  then show ?thesis
    using assms by (simp add: disconnectedCallback_def controllers_inv_abort)
qed

lemma controllers_inv_run:
  assumes "controllers_inv s"
  shows "controllers_inv (run h es s)"
proof (induction es rule: rev_induct)
  case Nil
  with assms show ?case by (simp add: run_def)
next
  case (snoc e es)
  from controllers_inv_handle [OF snoc, of h e]
  have "controllers_inv (step h (run h es s) e)"
    by (rule controllers_inv_same) (simp_all add: step_def run_microtasks_fields)
  then show ?case by (simp add: run_def)
qed

lemma controllers_inv_initial: "controllers_inv (initial q)"
  by (simp add: controllers_inv_def initial_def)

lemma empty_input_aborts_all:
  assumes "controllers_inv s"
  shows "list_all (\<lambda>call. aborted (handle h (Input []) s) (snd call))
           (fetchCalls (handle h (Input []) s))"
proof -
  let ?t = "options_set [] (s\<lparr>inputEl := []\<rparr>)"
  let ?a = "abort ''ZAutocomplete [data-z-autocomplete-input] has been cleared.'' ?t"
  have t: "controllers_inv ?t"
    using assms by (rule controllers_inv_same) (simp_all add: options_set_other_fields)
  have all: "list_all (\<lambda>r. r \<noteq> None) (controllers ?a)"
    using t by (rule controllers_inv_abort_all)
  have "controllers_inv ?a" using t by (rule controllers_inv_abort)
  then have f: "list_all (signal_ok (length (controllers ?a))) (fetchCalls ?a)"
    by (simp add: controllers_inv_def)
  have "list_all (\<lambda>call. aborted ?a (snd call)) (fetchCalls ?a)"
    using all f by (rule signal_ok_aborted)
  then show ?thesis
    by (simp add: onInput_def Let_def options_set_other_fields onClear_def value_set_def
        aborted_def [abs_def])
qed

text \<open>
  C6. An \<^verbatim>\<open>input\<close> event that leaves the field empty arms no timeout and creates no
  \<^verbatim>\<open>AbortController\<close>, and no call of \<^verbatim>\<open>fetchData\<close> is made by the end of its task;
  its handler empties and closes the option list at once (the active index is "none"),
  aborts the current controller if there is one, so that the signal of every call of
  \<^verbatim>\<open>fetchData\<close> made so far is aborted, and dispatches the event of the assignment
  \<^verbatim>\<open>value = undefined\<close>; when the task ends the committed value is \<^verbatim>\<open>undefined\<close>.
\<close>

theorem empty_input_clears:
  "timer (handle h (Input []) s) = timer s \<and>
   timeouts (handle h (Input []) s) = timeouts s \<and>
   fetchCalls (step h s (Input [])) = fetchCalls s \<and>
   abortController (handle h (Input []) s) = abortController s \<and>
   length (controllers (handle h (Input []) s)) = length (controllers s) \<and>
   optionList (handle h (Input []) s) = [] \<and>
   isOpen (handle h (Input []) s) = False \<and>
   activeOptionIndex (handle h (Input []) s) = - 1 \<and>
   aborted (handle h (Input []) s) (abortController s) = has_controller s \<and>
   (controllers_inv s \<longrightarrow>
      list_all (\<lambda>call. aborted (handle h (Input []) s) (snd call))
        (fetchCalls (handle h (Input []) s))) \<and>
   dispatched (step h s (Input [])) = dispatched s @ [None] \<and>
   committed (step h s (Input [])) = None"
proof -
  let ?s = "s\<lparr>inputEl := []\<rparr>"
  have e: "inputEl ?s = []" by simp
  have m: "microtasks (onInput h ?s) = microtasks ?s @ [(prevents h None, None)]"
    by (rule onInput_empty_fields [OF e])
  have c: "committed (step h s (Input [])) = None"
    by (simp add: step_def run_microtasks_snoc [OF m] value_then_fields)
  have a: "aborted (handle h (Input []) s) (abortController s) = has_controller s"
  proof (cases "abortController s")
    case None
    then show ?thesis by (simp add: aborted_def has_controller_def)
  next
    case (Some c)
    let ?t = "options_set [] ?s"
    have "c < length (controllers s) \<Longrightarrow>
      \<exists>y. controllers (abort ''ZAutocomplete [data-z-autocomplete-input] has been cleared.'' ?t) ! c = Some y"
      using Some by (intro abort_aborts) (simp_all add: options_set_other_fields)
    then show ?thesis
      using Some
      by (auto simp add: aborted_def has_controller_def onInput_def Let_def onClear_def value_set_def
          abort_fields options_set_other_fields)
  qed
  show ?thesis
    using onInput_empty_fields [OF e, of h] c a empty_input_aborts_all [of s h]
    by (simp add: step_def run_microtasks_fields)
qed

theorem empty_input_clears_witness:
  "controllers_inv searching \<and> fetchCalls searching = [(''a'', Some 0)] \<and>
   \<not> aborted searching (Some 0) \<and>
   list_all (\<lambda>call. aborted (handle demo_host (Input []) searching) (snd call))
     (fetchCalls (handle demo_host (Input []) searching)) \<and>
   optionList (handle demo_host (Input []) searching) = [] \<and>
   committed (step demo_host searching (Input [])) = None"
proof -
  have i: "controllers_inv searching"
    unfolding searching_def by (rule controllers_inv_run) (rule controllers_inv_initial)
  have f: "fetchCalls searching = [(''a'', Some 0)]" "\<not> aborted searching (Some 0)"
    by (simp_all add: searching_def run_simps)
  from empty_input_clears [of demo_host searching] i f show ?thesis by simp
qed

end
